theory Spec2Isabelle
  imports Complex_Main
begin

section \<open>DebouncedTextInput: data model\<close>

text \<open>
  The component of \<^verbatim>\<open>src/components/Inputs/DebouncedTextInput/index.tsx\<close> is a React
  function component with one \<^verbatim>\<open>useState\<close> cell (\<^verbatim>\<open>internalValue\<close>), one
  \<^verbatim>\<open>useRef\<close> cell (\<^verbatim>\<open>debounceTimerRef\<close>) and two \<^verbatim>\<open>useEffect\<close> hooks. It is
  embedded as a transition system: the hook cells, the props of the last committed render,
  the host's table of live timeouts, the clock and the trace of calls made to the owner's
  \<^verbatim>\<open>onChange\<close> are fields of one state record, and every handler is a function on
  that record that runs to completion.

  A function object supplied by the owner is represented by its identity (React compares
  dependencies with \<^verbatim>\<open>Object.is\<close>); calling it appends an entry to the trace. The
  cosmetic props (\<^verbatim>\<open>label\<close>, \<^verbatim>\<open>placeHolder\<close>, \<^verbatim>\<open>error\<close>) and \<^verbatim>\<open>onBlur\<close> are
  handed to the widget unchanged and touch none of the cells, so they are left out.
\<close>

type_synonym callback = nat

text \<open>
  A JavaScript \<^verbatim>\<open>number\<close>, as far as the component can tell numbers apart: it only
  compares \<^verbatim>\<open>debounceMs\<close> with \<^verbatim>\<open>Object.is\<close> and hands it to the host. Every finite
  double is a real, negative zero is a value of its own (\<^verbatim>\<open>Object.is(0, -0)\<close> is false),
  and \<^verbatim>\<open>NaN\<close> is equal to itself under \<^verbatim>\<open>Object.is\<close>, so equality of this datatype
  is \<^verbatim>\<open>Object.is\<close>.
\<close>

datatype number = Finite real | NegZero | PosInfinity | NegInfinity | NaN

text \<open>
  The destructured parameters of the component that its logic reads. \<open>p_debounceMs\<close> is
  the parameter after its default of line 35 has been applied: an owner that omits the
  prop is an owner that passes \<open>Finite 3000\<close>.
\<close>

record props =
  p_value :: "string option"
  p_onChange :: "callback option"
  p_debounceMs :: number

text \<open>The object built at lines 60-63: \<^verbatim>\<open>{target: {value}, currentTarget: {value}}\<close>.\<close>

record change_event =
  target_value :: string
  currentTarget_value :: string

text \<open>
  One invocation of an owner callback: when, which function, with which event. The field
  \<open>c_timer\<close> is a ghost: the handle of the timeout whose expiry made the call.
\<close>

record call =
  c_time :: nat
  c_callback :: callback
  c_event :: change_event
  c_timer :: nat

text \<open>
  A live timeout of the host. The arrow function passed to \<^verbatim>\<open>setTimeout\<close> at line 57 is
  a closure over \<^verbatim>\<open>onChange\<close> and \<^verbatim>\<open>internalValue\<close> of the render that created it;
  the timeout stores the two captured values, and \<open>timer_callback\<close> below is its body.
\<close>

record timer =
  t_handle :: nat
  t_deadline :: nat
  t_onChange :: "callback option"
  t_internalValue :: string

record state =
  cur_props :: props
  internalValue :: string
  debounceTimerRef :: "nat option"
  mounted :: bool
  timers :: "timer list"
  next_handle :: nat
  now :: nat
  calls :: "call list"

text \<open>What the component hands to the rendered text input (line 94).\<close>

record widget =
  w_value :: string

datatype event =
    Keystroke string
  | SetProps props
  | Elapse nat
  | Unmount

section \<open>The host: timeouts\<close>

text \<open>
  \<^verbatim>\<open>value || ''\<close>: \<^verbatim>\<open>undefined\<close> and the empty string are both falsy, every other
  string is itself.
\<close>

definition or_empty :: "string option \<Rightarrow> string" where
  "or_empty v = (case v of None \<Rightarrow> [] | Some x \<Rightarrow> x)"

text \<open>
  The delay in whole milliseconds that the host gives a timeout. The source types the
  handle as \<^verbatim>\<open>NodeJS.Timeout\<close>, and the host is modelled after that timer: a delay from
  1 to 2147483647 (\<open>2\<^sup>3\<^sup>1 - 1\<close>) is honoured, its fraction dropped; every other
  number (smaller than 1, larger than \<open>2\<^sup>3\<^sup>1 - 1\<close>, infinite or \<^verbatim>\<open>NaN\<close>) is replaced
  by 1.
\<close>

fun host_delay :: "number \<Rightarrow> nat" where
  "host_delay (Finite r) = (if 1 \<le> r \<and> r \<le> 2147483647 then nat \<lfloor>r\<rfloor> else 1)"
| "host_delay NegZero = 1"
| "host_delay PosInfinity = 1"
| "host_delay NegInfinity = 1"
| "host_delay NaN = 1"

text \<open>
  \<^verbatim>\<open>setTimeout(closure, delay)\<close> registers a timeout under a fresh handle and returns
  the handle. Handles are never \<^verbatim>\<open>null\<close>, so \<^verbatim>\<open>if (debounceTimerRef.current)\<close> is the
  test that the cell holds one.
\<close>

definition setTimeout :: "callback option \<Rightarrow> string \<Rightarrow> number \<Rightarrow> state \<Rightarrow> nat \<times> state" where
  "setTimeout cb iv delay s =
     (next_handle s,
      s\<lparr>timers := timers s @
           [\<lparr>t_handle = next_handle s, t_deadline = now s + host_delay delay,
             t_onChange = cb, t_internalValue = iv\<rparr>],
        next_handle := Suc (next_handle s)\<rparr>)"

definition clearTimeout :: "nat \<Rightarrow> state \<Rightarrow> state" where
  "clearTimeout h s = s\<lparr>timers := filter (\<lambda>t. t_handle t \<noteq> h) (timers s)\<rparr>"

text \<open>Lines 58-67, the body of the closure, run by the host when the timeout expires.\<close>

definition timer_callback :: "timer \<Rightarrow> state \<Rightarrow> state" where
  "timer_callback t s =
     (let s1 = (case t_onChange t of
                  None \<Rightarrow> s
                | Some cb \<Rightarrow>
                    s\<lparr>calls := calls s @
                      [\<lparr>c_time = now s, c_callback = cb,
                        c_event = \<lparr>target_value = t_internalValue t,
                                   currentTarget_value = t_internalValue t\<rparr>,
                        c_timer = t_handle t\<rparr>]\<rparr>)
      in s1\<lparr>debounceTimerRef := None\<rparr>)"

text \<open>The host takes an expired timeout out of its table and runs the closure.\<close>

definition fire :: "timer \<Rightarrow> state \<Rightarrow> state" where
  "fire t s =
     timer_callback t
       (s\<lparr>timers := filter (\<lambda>u. t_handle u \<noteq> t_handle t) (timers s),
          now := max (now s) (t_deadline t)\<rparr>)"

text \<open>
  \<open>d\<close> milliseconds pass with no other event: every timeout whose deadline is reached
  fires, earliest deadline first.
\<close>

definition elapse :: "nat \<Rightarrow> state \<Rightarrow> state" where
  "elapse d s =
     (let T = now s + d;
          due = sort_key t_deadline (filter (\<lambda>t. t_deadline t \<le> T) (timers s))
      in (fold fire due s)\<lparr>now := T\<rparr>)"

section \<open>The component\<close>

text \<open>Lines 50-69, the body of the second effect, for a render with the given values.\<close>

definition debounce_effect :: "string \<Rightarrow> props \<Rightarrow> state \<Rightarrow> state" where
  "debounce_effect iv p s =
     (if iv \<noteq> or_empty (p_value p) then
        (let s1 = (case debounceTimerRef s of
                     Some h \<Rightarrow> clearTimeout h s
                   | None \<Rightarrow> s);
             (h, s2) = setTimeout (p_onChange p) iv (p_debounceMs p) s1
         in s2\<lparr>debounceTimerRef := Some h\<rparr>)
      else s)"

text \<open>Lines 72-77, the cleanup the second effect returns.\<close>

definition debounce_cleanup :: "state \<Rightarrow> state" where
  "debounce_cleanup s =
     (case debounceTimerRef s of
        Some h \<Rightarrow> (clearTimeout h s)\<lparr>debounceTimerRef := None\<rparr>
      | None \<Rightarrow> s)"

text \<open>
  React compares each effect's dependency array with that of the previous commit
  (\<^verbatim>\<open>Object.is\<close> on every entry). The first effect (lines 43-45) has the array
  \<^verbatim>\<open>[value]\<close>, the second (line 78) \<^verbatim>\<open>[internalValue, value, onChange, debounceMs]\<close>.
\<close>

definition sync_deps_changed :: "props \<Rightarrow> state \<Rightarrow> bool" where
  "sync_deps_changed p s = (p_value p \<noteq> p_value (cur_props s))"

definition debounce_deps_changed :: "props \<Rightarrow> string \<Rightarrow> state \<Rightarrow> bool" where
  "debounce_deps_changed p iv s =
     (iv \<noteq> internalValue s \<or> p_value p \<noteq> p_value (cur_props s) \<or>
      p_onChange p \<noteq> p_onChange (cur_props s) \<or>
      p_debounceMs p \<noteq> p_debounceMs (cur_props s))"

text \<open>
  One render and commit with props \<open>p\<close> and state \<open>iv\<close>. For the effects whose
  dependencies changed React runs the old cleanups first and then the bodies in order. The
  first effect only queues \<^verbatim>\<open>setInternalValue(value || '')\<close>, which is returned as the
  pending state; the second sees the values of this render.
\<close>

definition commit_pass :: "props \<Rightarrow> string \<Rightarrow> state \<Rightarrow> state \<times> string option" where
  "commit_pass p iv s =
     (let s1 = (if debounce_deps_changed p iv s then debounce_cleanup s else s);
          s2 = s1\<lparr>cur_props := p, internalValue := iv\<rparr>;
          s3 = (if debounce_deps_changed p iv s then debounce_effect iv p s2 else s2)
      in (s3, if sync_deps_changed p s then Some (or_empty (p_value p)) else None))"

text \<open>
  Render until no state update is pending. A state update queued by an effect is rendered
  before the host runs any timeout: every handler runs to completion.
\<close>

function rerender :: "props \<Rightarrow> string \<Rightarrow> state \<Rightarrow> state" where
  "rerender p iv s =
     (case commit_pass p iv s of
        (s', None) \<Rightarrow> s'
      | (s', Some iv') \<Rightarrow> rerender p iv' s')"
  by pat_completeness auto
termination
proof (relation "measure (\<lambda>(p, iv, s). if p_value p = p_value (cur_props s) then 0 else 1)")
  show "wf (measure (\<lambda>(p, iv, s). if p_value p = p_value (cur_props s) then 0 else (1::nat)))"
    by simp
next
  fix p :: props and iv :: string and s x1 :: state and x2 :: "string option" and iv' :: string
  assume a: "(x1, x2) = commit_pass p iv s" and b: "x2 = Some iv'"
  from a b have changed: "p_value p \<noteq> p_value (cur_props s)"
    by (auto simp: commit_pass_def sync_deps_changed_def Let_def split: if_splits)
  from a have "cur_props x1 = p"
    by (auto simp: commit_pass_def Let_def debounce_effect_def debounce_cleanup_def
        setTimeout_def clearTimeout_def split: if_splits option.splits prod.splits)
  with changed
  show "((p, iv', x1), (p, iv, s)) \<in>
          measure (\<lambda>(p, iv, s). if p_value p = p_value (cur_props s) then 0 else 1)"
    by simp
qed

declare rerender.simps [simp del]

text \<open>
  Mount: \<^verbatim>\<open>useState(value || '')\<close>, an empty ref, then every effect runs once (there is
  no earlier commit, hence no cleanup) and the queued state update is rendered.
\<close>

definition mount :: "props \<Rightarrow> state" where
  "mount p =
     (let s0 = \<lparr>cur_props = p, internalValue = or_empty (p_value p),
                debounceTimerRef = None, mounted = True, timers = [],
                next_handle = 1, now = 0, calls = []\<rparr>;
          s1 = debounce_effect (internalValue s0) p s0
      in rerender p (or_empty (p_value p)) s1)"

text \<open>Lines 84-88: \<^verbatim>\<open>setInternalValue(event.target.value)\<close>, then React renders.\<close>

definition handleInputChange :: "string \<Rightarrow> state \<Rightarrow> state" where
  "handleInputChange newValue s = rerender (cur_props s) newValue s"

text \<open>Lines 90-100: the widget receives \<^verbatim>\<open>value={internalValue}\<close>.\<close>

definition render :: "state \<Rightarrow> widget" where
  "render s = \<lparr>w_value = internalValue s\<rparr>"

text \<open>
  The events of one mounted instance. An unmounted instance receives no keystroke and no
  props; the host's clock goes on.
\<close>

fun step :: "event \<Rightarrow> state \<Rightarrow> state" where
  "step (Keystroke txt) s = (if mounted s then handleInputChange txt s else s)"
| "step (SetProps p) s = (if mounted s then rerender p (internalValue s) s else s)"
| "step (Elapse d) s = elapse d s"
| "step Unmount s = (if mounted s then (debounce_cleanup s)\<lparr>mounted := False\<rparr> else s)"

definition run :: "event list \<Rightarrow> state \<Rightarrow> state" where
  "run es s = fold step es s"


section \<open>Vocabulary of the properties\<close>

text \<open>
  The cell and the host's table agree: an empty cell means no live timeout; a handle in the
  cell means the instance is mounted, the values diverge, and the table holds exactly the
  timeout of that handle, which captured the current callback and the current state and
  expires no later than the host's delay for \<^verbatim>\<open>debounceMs\<close> from now.
\<close>

definition wf_state :: "state \<Rightarrow> bool" where
  "wf_state s =
     (case debounceTimerRef s of
        None \<Rightarrow> timers s = []
      | Some h \<Rightarrow>
          mounted s \<and> internalValue s \<noteq> or_empty (p_value (cur_props s)) \<and>
          (case timers s of
             [t] \<Rightarrow> t_handle t = h \<and> h < next_handle s \<and>
                    t_onChange t = p_onChange (cur_props s) \<and>
                    t_internalValue t = internalValue s \<and>
                    now s \<le> t_deadline t \<and>
                    t_deadline t \<le> now s + host_delay (p_debounceMs (cur_props s))
           | _ \<Rightarrow> False))"

text \<open>The timeout that the second effect registers in state \<open>s\<close> for a render \<open>(p, iv)\<close>.\<close>

definition new_timer :: "props \<Rightarrow> string \<Rightarrow> state \<Rightarrow> timer" where
  "new_timer p iv s =
     \<lparr>t_handle = next_handle s, t_deadline = now s + host_delay (p_debounceMs p),
      t_onChange = p_onChange p, t_internalValue = iv\<rparr>"

text \<open>The call an expiring timeout makes when a callback was captured.\<close>

definition commit_call :: "timer \<Rightarrow> callback \<Rightarrow> call" where
  "commit_call t cb =
     \<lparr>c_time = t_deadline t, c_callback = cb,
      c_event = \<lparr>target_value = t_internalValue t,
                 currentTarget_value = t_internalValue t\<rparr>,
      c_timer = t_handle t\<rparr>"

text \<open>The calls made between an earlier state and a later one.\<close>

definition calls_since :: "state \<Rightarrow> state \<Rightarrow> call list" where
  "calls_since s s' = drop (length (calls s)) (calls s')"

text \<open>A handle that has been issued and is no longer in the host's table.\<close>

definition dead :: "nat \<Rightarrow> state \<Rightarrow> bool" where
  "dead h s = (h < next_handle s \<and> h \<notin> t_handle ` set (timers s))"

text \<open>InternalValue differs from ExternalValue.\<close>

definition diverged :: "state \<Rightarrow> bool" where
  "diverged s = (internalValue s \<noteq> or_empty (p_value (cur_props s)))"

text \<open>The events that enter the component from the widget or the owner.\<close>

fun is_input :: "event \<Rightarrow> bool" where
  "is_input (Keystroke txt) = True"
| "is_input (SetProps p) = True"
| "is_input (Elapse d) = False"
| "is_input Unmount = False"

text \<open>
  The events that run the cleanup of the second effect: unmounting, and a keystroke or
  new props that change one of its dependencies.
\<close>

fun tears_down :: "event \<Rightarrow> state \<Rightarrow> bool" where
  "tears_down (Keystroke txt) s = debounce_deps_changed (cur_props s) txt s"
| "tears_down (SetProps p) s = debounce_deps_changed p (internalValue s) s"
| "tears_down (Elapse d) s = False"
| "tears_down Unmount s = True"

text \<open>
  A burst: events, each after a gap in milliseconds since the event before it.
\<close>

fun burst :: "(nat \<times> event) list \<Rightarrow> event list" where
  "burst [] = []"
| "burst ((g, e) # ks) = Elapse g # e # burst ks"

text \<open>
  A burst of typing with no external-value push, for an instance that holds the text
  \<open>cur\<close> under the props \<open>p\<close>: every event is a keystroke that changes the text or
  new props that keep \<^verbatim>\<open>value\<close> and replace \<^verbatim>\<open>onChange\<close> or \<^verbatim>\<open>debounceMs\<close>, and
  every event arrives before the host's delay for the \<^verbatim>\<open>debounceMs\<close> then in force has
  passed since the event before it.
\<close>

fun quiet_burst :: "string \<Rightarrow> props \<Rightarrow> (nat \<times> event) list \<Rightarrow> bool" where
  "quiet_burst cur p [] = True"
| "quiet_burst cur p ((g, Keystroke v) # ks) =
     (g < host_delay (p_debounceMs p) \<and> v \<noteq> cur \<and> quiet_burst v p ks)"
| "quiet_burst cur p ((g, SetProps q) # ks) =
     (g < host_delay (p_debounceMs p) \<and> p_value q = p_value p \<and>
      (p_onChange q \<noteq> p_onChange p \<or> p_debounceMs q \<noteq> p_debounceMs p) \<and>
      quiet_burst cur q ks)"
| "quiet_burst cur p ((g, Elapse d) # ks) = False"
| "quiet_burst cur p ((g, Unmount) # ks) = False"

text \<open>The text of the last keystroke of a burst, and the props in force at its end.\<close>

fun final_text :: "string \<Rightarrow> (nat \<times> event) list \<Rightarrow> string" where
  "final_text cur [] = cur"
| "final_text cur ((g, Keystroke v) # ks) = final_text v ks"
| "final_text cur ((g, SetProps q) # ks) = final_text cur ks"
| "final_text cur ((g, Elapse d) # ks) = final_text cur ks"
| "final_text cur ((g, Unmount) # ks) = final_text cur ks"

fun final_props :: "props \<Rightarrow> (nat \<times> event) list \<Rightarrow> props" where
  "final_props p [] = p"
| "final_props p ((g, SetProps q) # ks) = final_props q ks"
| "final_props p ((g, Keystroke v) # ks) = final_props p ks"
| "final_props p ((g, Elapse d) # ks) = final_props p ks"
| "final_props p ((g, Unmount) # ks) = final_props p ks"

text \<open>
  \<^verbatim>\<open>debounceMs\<close> is the whole number \<open>d\<close> of milliseconds and lies in the range of
  delays that the host honours.
\<close>

definition honoured :: "number \<Rightarrow> nat \<Rightarrow> bool" where
  "honoured n d = (n = Finite (real d) \<and> 1 \<le> d \<and> d \<le> 2147483647)"

text \<open>
  Concrete instances: an owner value \<^verbatim>\<open>"x"\<close> with a 500 ms debounce, the state right
  after mounting, and the state 200 ms after the user has typed \<^verbatim>\<open>"y"\<close>.
\<close>

definition ex_props :: props where
  "ex_props = \<lparr>p_value = Some ''x'', p_onChange = Some 7, p_debounceMs = Finite 500\<rparr>"

definition ex_idle :: state where
  "ex_idle = mount ex_props"

definition ex_pending :: state where
  "ex_pending = run [Keystroke ''y'', Elapse 200] ex_idle"

text \<open>
  The live timeout, if any, was registered at the present instant: nothing is pending when
  the values agree, and otherwise one timeout expires the host's full delay for
  \<^verbatim>\<open>debounceMs\<close> from now.
\<close>

definition fresh :: "state \<Rightarrow> bool" where
  "fresh s =
     (map t_deadline (timers s) =
        (if diverged s then [now s + host_delay (p_debounceMs (cur_props s))] else []))"

text \<open>What the owner observes of a call: the time, the function called and the event.\<close>

definition observed :: "call \<Rightarrow> nat \<times> callback \<times> change_event" where
  "observed c = (c_time c, c_callback c, c_event c)"

text \<open>
  An owner value \<^verbatim>\<open>"x"\<close> with a debounce of \<open>2\<^sup>3\<^sup>1\<close> ms, one more than the host
  honours.
\<close>

definition ex_props_huge :: props where
  "ex_props_huge =
     \<lparr>p_value = Some ''x'', p_onChange = Some 7, p_debounceMs = Finite 2147483648\<rparr>"

text \<open>An owner value of the empty string with the default debounce of 3000 ms.\<close>

definition ex_props_default :: props where
  "ex_props_default =
     \<lparr>p_value = Some [], p_onChange = Some 7, p_debounceMs = Finite 3000\<rparr>"

section \<open>Basic facts\<close>

lemma wf_idle: "wf_state s \<Longrightarrow> debounceTimerRef s = None \<Longrightarrow> timers s = []"
  by (simp add: wf_state_def)

lemma wf_pending:
  assumes "wf_state s" "debounceTimerRef s = Some h"
  obtains dl where
    "timers s = [\<lparr>t_handle = h, t_deadline = dl, t_onChange = p_onChange (cur_props s),
                  t_internalValue = internalValue s\<rparr>]"
    "now s \<le> dl" "dl \<le> now s + host_delay (p_debounceMs (cur_props s))" "h < next_handle s"
    "mounted s" "internalValue s \<noteq> or_empty (p_value (cur_props s))"
proof -
  from assms obtain t where t: "timers s = [t]" "t_handle t = h" "h < next_handle s"
    "t_onChange t = p_onChange (cur_props s)" "t_internalValue t = internalValue s"
    "now s \<le> t_deadline t" "t_deadline t \<le> now s + host_delay (p_debounceMs (cur_props s))"
    "mounted s" "internalValue s \<noteq> or_empty (p_value (cur_props s))"
    by (auto simp: wf_state_def split: list.splits)
  then have "t = \<lparr>t_handle = h, t_deadline = t_deadline t,
      t_onChange = p_onChange (cur_props s), t_internalValue = internalValue s\<rparr>"
    by simp
  with t that show thesis by metis
qed

lemma cleanup_wf:
  "wf_state s \<Longrightarrow> debounce_cleanup s = s\<lparr>debounceTimerRef := None, timers := []\<rparr>"
  by (cases "debounceTimerRef s")
     (auto simp: debounce_cleanup_def clearTimeout_def wf_state_def split: list.splits)

lemma effect_idle:
  "debounceTimerRef s = None \<Longrightarrow> timers s = [] \<Longrightarrow>
   debounce_effect iv p s =
     (if iv \<noteq> or_empty (p_value p)
      then s\<lparr>timers := [new_timer p iv s], next_handle := Suc (next_handle s),
             debounceTimerRef := Some (next_handle s)\<rparr>
      else s)"
  by (simp add: debounce_effect_def setTimeout_def new_timer_def)

lemma commit_pass_same:
  "\<not> debounce_deps_changed p iv s \<Longrightarrow> commit_pass p iv s = (s, None)"
  by (simp add: commit_pass_def debounce_deps_changed_def sync_deps_changed_def)

lemma commit_pass_changed:
  assumes "wf_state s" "debounce_deps_changed p iv s"
  shows "commit_pass p iv s =
     ((if iv \<noteq> or_empty (p_value p)
       then s\<lparr>cur_props := p, internalValue := iv, debounceTimerRef := Some (next_handle s),
              timers := [new_timer p iv s], next_handle := Suc (next_handle s)\<rparr>
       else s\<lparr>cur_props := p, internalValue := iv, debounceTimerRef := None, timers := []\<rparr>),
      if sync_deps_changed p s then Some (or_empty (p_value p)) else None)"
  using assms(2)
  by (simp add: commit_pass_def cleanup_wf [OF assms(1)] effect_idle new_timer_def)

lemma cur_props_commit_pass: "cur_props (fst (commit_pass p iv s)) = p"
  by (auto simp: commit_pass_def Let_def debounce_effect_def debounce_cleanup_def
      setTimeout_def clearTimeout_def split: if_splits option.splits prod.splits)

lemma rerender_same_value:
  "p_value p = p_value (cur_props s) \<Longrightarrow> rerender p iv s = fst (commit_pass p iv s)"
  by (subst rerender.simps)
     (simp add: commit_pass_def sync_deps_changed_def Let_def split: prod.splits)

lemma rerender_new_value:
  assumes "p_value p \<noteq> p_value (cur_props s)"
  shows "rerender p iv s =
           fst (commit_pass p (or_empty (p_value p)) (fst (commit_pass p iv s)))"
proof -
  obtain s1 where s1: "commit_pass p iv s = (s1, Some (or_empty (p_value p)))"
    using assms by (simp add: commit_pass_def sync_deps_changed_def Let_def)
  then have "cur_props s1 = p"
    using cur_props_commit_pass [of p iv s] by simp
  then have "rerender p (or_empty (p_value p)) s1 = fst (commit_pass p (or_empty (p_value p)) s1)"
    by (simp add: rerender_same_value)
  with s1 show ?thesis
    by (subst rerender.simps) simp
qed


lemma wf_scheduled:
  "mounted s \<Longrightarrow> iv \<noteq> or_empty (p_value p) \<Longrightarrow>
   wf_state (s\<lparr>cur_props := p, internalValue := iv, debounceTimerRef := Some (next_handle s),
               timers := [new_timer p iv s], next_handle := Suc (next_handle s)\<rparr>)"
  by (simp add: wf_state_def new_timer_def)

lemma rerender_wf_same:
  assumes "wf_state s" "p_value p = p_value (cur_props s)"
  shows "rerender p iv s =
     (if debounce_deps_changed p iv s then
        (if iv \<noteq> or_empty (p_value p)
         then s\<lparr>cur_props := p, internalValue := iv,
                debounceTimerRef := Some (next_handle s),
                timers := [new_timer p iv s], next_handle := Suc (next_handle s)\<rparr>
         else s\<lparr>cur_props := p, internalValue := iv, debounceTimerRef := None,
                timers := []\<rparr>)
      else s)"
  using assms
  by (simp add: rerender_same_value commit_pass_same commit_pass_changed)

lemma rerender_wf_new:
  assumes "wf_state s" "mounted s" "p_value p \<noteq> p_value (cur_props s)"
  shows "rerender p iv s =
     s\<lparr>cur_props := p, internalValue := or_empty (p_value p), debounceTimerRef := None,
       timers := [],
       next_handle := (if iv \<noteq> or_empty (p_value p) then Suc (next_handle s)
                       else next_handle s)\<rparr>"
proof -
  have ch: "debounce_deps_changed p iv s"
    using assms(3) by (simp add: debounce_deps_changed_def)
  show ?thesis
  proof (cases "iv = or_empty (p_value p)")
    case True
    then show ?thesis
      using assms ch
      by (simp add: rerender_new_value commit_pass_changed commit_pass_same
          debounce_deps_changed_def)
  next
    case False
    let ?s1 = "s\<lparr>cur_props := p, internalValue := iv,
                debounceTimerRef := Some (next_handle s),
                timers := [new_timer p iv s], next_handle := Suc (next_handle s)\<rparr>"
    have one: "fst (commit_pass p iv s) = ?s1"
      using assms(1) ch False by (simp add: commit_pass_changed)
    have wf1: "wf_state ?s1"
      using assms(2) False by (rule wf_scheduled)
    have ch1: "debounce_deps_changed p (or_empty (p_value p)) ?s1"
      using False by (simp add: debounce_deps_changed_def)
    have "fst (commit_pass p (or_empty (p_value p)) ?s1) =
            ?s1\<lparr>cur_props := p, internalValue := or_empty (p_value p),
                debounceTimerRef := None, timers := []\<rparr>"
      using wf1 ch1 by (simp add: commit_pass_changed)
    with one False show ?thesis
      using assms(3) by (simp add: rerender_new_value)
  qed
qed

lemma mount_eq:
  "mount p = \<lparr>cur_props = p, internalValue = or_empty (p_value p),
             debounceTimerRef = None, mounted = True, timers = [],
             next_handle = 1, now = 0, calls = []\<rparr>"
  by (simp add: mount_def effect_idle rerender_same_value commit_pass_same
      debounce_deps_changed_def)

lemma elapse_idle: "timers s = [] \<Longrightarrow> elapse d s = s\<lparr>now := now s + d\<rparr>"
  by (simp add: elapse_def)

lemma elapse_single:
  "timers s = [t] \<Longrightarrow> now s \<le> t_deadline t \<Longrightarrow>
   elapse d s =
     (if t_deadline t \<le> now s + d
      then s\<lparr>timers := [], debounceTimerRef := None, now := now s + d,
             calls := calls s @ (case t_onChange t of None \<Rightarrow> []
                                 | Some cb \<Rightarrow> [commit_call t cb])\<rparr>
      else s\<lparr>now := now s + d\<rparr>)"
  by (simp add: elapse_def fire_def timer_callback_def commit_call_def max_def
      split: option.splits)

lemma wf_mount: "wf_state (mount p)"
  by (simp add: mount_eq wf_state_def)

lemma wf_elapse: "wf_state s \<Longrightarrow> wf_state (elapse d s)"
proof (cases "debounceTimerRef s")
  case None
  assume "wf_state s"
  with None show ?thesis
    by (simp add: elapse_idle wf_idle) (simp add: wf_state_def)
next
  case (Some h)
  assume w: "wf_state s"
  from w Some obtain dl where t: "timers s =
      [\<lparr>t_handle = h, t_deadline = dl, t_onChange = p_onChange (cur_props s),
        t_internalValue = internalValue s\<rparr>]" "now s \<le> dl"
    by (rule wf_pending)
  from w Some t show ?thesis
    by (simp add: elapse_single) (simp add: wf_state_def)
qed

lemma wf_step: "wf_state s \<Longrightarrow> wf_state (step e s)"
proof (cases e)
  case (Keystroke v)
  assume "wf_state s"
  then show ?thesis
    using Keystroke
    by (simp add: handleInputChange_def rerender_wf_same)
       (simp add: wf_state_def new_timer_def)
next
  case (SetProps p)
  assume w: "wf_state s"
  show ?thesis
  proof (cases "p_value p = p_value (cur_props s)")
    case True
    with w SetProps show ?thesis
      by (simp add: rerender_wf_same) (simp add: wf_state_def new_timer_def)
  next
    case False
    with w SetProps show ?thesis
      by (simp add: rerender_wf_new) (simp add: wf_state_def)
  qed
next
  case (Elapse d)
  assume "wf_state s"
  then show ?thesis
    using Elapse by (simp add: wf_elapse)
next
  case Unmount
  assume "wf_state s"
  then show ?thesis
    using Unmount by (simp add: cleanup_wf) (simp add: wf_state_def)
qed

lemma wf_run: "wf_state s \<Longrightarrow> wf_state (run es s)"
  unfolding run_def by (induction es arbitrary: s) (simp_all add: wf_step)


lemma internalValue_commit_pass: "internalValue (fst (commit_pass p iv s)) = iv"
  by (auto simp: commit_pass_def Let_def debounce_effect_def debounce_cleanup_def
      setTimeout_def clearTimeout_def split: if_splits option.splits prod.splits)

lemma mounted_commit_pass: "mounted (fst (commit_pass p iv s)) = mounted s"
  by (auto simp: commit_pass_def Let_def debounce_effect_def debounce_cleanup_def
      setTimeout_def clearTimeout_def split: if_splits option.splits prod.splits)

lemma now_commit_pass: "now (fst (commit_pass p iv s)) = now s"
  by (auto simp: commit_pass_def Let_def debounce_effect_def debounce_cleanup_def
      setTimeout_def clearTimeout_def split: if_splits option.splits prod.splits)

lemma mounted_rerender: "mounted (rerender p iv s) = mounted s"
  by (cases "p_value p = p_value (cur_props s)")
     (simp_all add: rerender_same_value rerender_new_value mounted_commit_pass)

lemma mounted_fold_fire: "mounted (fold fire ts s) = mounted s"
  by (induction ts arbitrary: s) (simp_all add: fire_def timer_callback_def split: option.splits)

lemma mounted_elapse: "mounted (elapse d s) = mounted s"
  by (simp add: elapse_def Let_def mounted_fold_fire)

lemma mounted_run: "mounted s \<Longrightarrow> Unmount \<notin> set es \<Longrightarrow> mounted (run es s)"
proof (induction es arbitrary: s)
  case Nil
  then show ?case by (simp add: run_def)
next
  case (Cons e es)
  from Cons.prems have "mounted (step e s)"
    by (cases e) (simp_all add: handleInputChange_def mounted_rerender mounted_elapse)
  with Cons show ?case by (simp add: run_def)
qed

lemma ex_idle_eq:
  "ex_idle = \<lparr>cur_props = ex_props, internalValue = ''x'', debounceTimerRef = None,
               mounted = True, timers = [], next_handle = 1, now = 0, calls = []\<rparr>"
  by (simp add: ex_idle_def mount_eq or_empty_def ex_props_def)

lemma ex_pending_eq:
  "ex_pending =
     \<lparr>cur_props = ex_props, internalValue = ''y'', debounceTimerRef = Some 1,
      mounted = True,
      timers = [\<lparr>t_handle = 1, t_deadline = 500, t_onChange = Some 7,
                 t_internalValue = ''y''\<rparr>],
      next_handle = 2, now = 200, calls = []\<rparr>"
proof -
  have w: "wf_state ex_idle"
    by (simp add: ex_idle_def wf_mount)
  have "step (Keystroke ''y'') ex_idle =
     \<lparr>cur_props = ex_props, internalValue = ''y'', debounceTimerRef = Some 1,
      mounted = True,
      timers = [\<lparr>t_handle = 1, t_deadline = 500, t_onChange = Some 7,
                 t_internalValue = ''y''\<rparr>],
      next_handle = 2, now = 0, calls = []\<rparr>"
    using w
    by (simp add: handleInputChange_def rerender_wf_same)
       (simp add: ex_idle_eq debounce_deps_changed_def new_timer_def or_empty_def ex_props_def)
  then show ?thesis
    by (simp add: ex_pending_def run_def elapse_single)
qed

lemma wf_ex_pending: "wf_state ex_pending"
  by (simp add: ex_pending_def ex_idle_def wf_run wf_mount)

lemma calls_commit_pass: "calls (fst (commit_pass p iv s)) = calls s"
  by (auto simp: commit_pass_def Let_def debounce_effect_def debounce_cleanup_def
      setTimeout_def clearTimeout_def split: if_splits option.splits prod.splits)

lemma calls_rerender: "calls (rerender p iv s) = calls s"
  by (cases "p_value p = p_value (cur_props s)")
     (simp_all add: rerender_same_value rerender_new_value calls_commit_pass)

lemma calls_input: "\<forall>d. e \<noteq> Elapse d \<Longrightarrow> calls (step e s) = calls s"
  by (cases e)
     (simp_all add: handleInputChange_def calls_rerender debounce_cleanup_def clearTimeout_def
       split: option.splits)

text \<open>
  Under the invariant a step changes the table of timeouts in one of three ways: it leaves
  it alone, empties it, or replaces it by one timeout with a fresh handle.
\<close>

lemma timers_step:
  assumes "wf_state s"
  shows "timers (step e s) = timers s \<and> next_handle (step e s) = next_handle s \<or>
         timers (step e s) = [] \<and> next_handle s \<le> next_handle (step e s) \<or>
         (\<exists>t. timers (step e s) = [t] \<and> t_handle t = next_handle s \<and>
              next_handle (step e s) = Suc (next_handle s))"
proof (cases e)
  case (Keystroke v)
  with assms show ?thesis
    by (simp add: handleInputChange_def rerender_wf_same new_timer_def)
next
  case (SetProps p)
  show ?thesis
  proof (cases "p_value p = p_value (cur_props s)")
    case True
    with assms SetProps show ?thesis
      by (simp add: rerender_wf_same new_timer_def)
  next
    case False
    with assms SetProps show ?thesis
      by (simp add: rerender_wf_new)
  qed
next
  case (Elapse d)
  show ?thesis
  proof (cases "debounceTimerRef s")
    case None
    with assms Elapse show ?thesis
      by (simp add: elapse_idle wf_idle)
  next
    case (Some h)
    from assms Some obtain dl where "timers s =
        [\<lparr>t_handle = h, t_deadline = dl, t_onChange = p_onChange (cur_props s),
          t_internalValue = internalValue s\<rparr>]" "now s \<le> dl"
      by (rule wf_pending)
    with Elapse show ?thesis
      by (simp add: elapse_single)
  qed
next
  case Unmount
  with assms show ?thesis
    by (simp add: cleanup_wf)
qed

text \<open>
  Under the invariant every call made during a step comes from the one live timeout, so it
  uses the callback, the text and the delay of the current render.
\<close>

lemma calls_step:
  assumes "wf_state s"
  shows "\<exists>xs. calls (step e s) = calls s @ xs \<and> length xs \<le> 1 \<and>
           (\<forall>c \<in> set xs.
              c_timer c \<in> t_handle ` set (timers s) \<and>
              Some (c_timer c) = debounceTimerRef s \<and>
              Some (c_callback c) = p_onChange (cur_props s) \<and>
              target_value (c_event c) = internalValue s \<and>
              currentTarget_value (c_event c) = internalValue s \<and>
              now s \<le> c_time c \<and> c_time c \<le> now s + host_delay (p_debounceMs (cur_props s)))"
proof (cases "\<exists>d. e = Elapse d")
  case False
  then have "calls (step e s) = calls s"
    by (simp add: calls_input)
  then show ?thesis by simp
next
  case True
  then obtain d where e: "e = Elapse d" ..
  show ?thesis
  proof (cases "debounceTimerRef s")
    case None
    with assms e show ?thesis
      by (simp add: elapse_idle wf_idle)
  next
    case (Some h)
    from assms Some obtain dl where t: "timers s =
        [\<lparr>t_handle = h, t_deadline = dl, t_onChange = p_onChange (cur_props s),
          t_internalValue = internalValue s\<rparr>]" "now s \<le> dl"
        "dl \<le> now s + host_delay (p_debounceMs (cur_props s))"
      by (rule wf_pending)
    with e Some show ?thesis
      by (cases "p_onChange (cur_props s)") (simp_all add: elapse_single commit_call_def)
  qed
qed

lemma dead_step:
  assumes "wf_state s" "dead h s"
  shows "dead h (step e s)"
  using timers_step [OF assms(1), of e] assms(2)
  by (auto simp: dead_def)

lemma dead_step_calls:
  assumes "wf_state s" "dead h s"
  shows "h \<notin> c_timer ` set (calls_since s (step e s))"
  using calls_step [OF assms(1), of e] assms(2)
  by (auto simp: dead_def calls_since_def)

lemma calls_run_prefix:
  "wf_state s \<Longrightarrow> \<exists>xs. calls (run es s) = calls s @ xs"
proof (induction es arbitrary: s)
  case Nil
  then show ?case by (simp add: run_def)
next
  case (Cons e es)
  from Cons.prems obtain xs where xs: "calls (step e s) = calls s @ xs"
    using calls_step [of s e] by blast
  from Cons.prems have "wf_state (step e s)" by (rule wf_step)
  from Cons.IH [OF this] obtain ys where "calls (run es (step e s)) = calls (step e s) @ ys" ..
  with xs show ?case by (simp add: run_def)
qed

lemma calls_since_run_Cons:
  assumes "wf_state s"
  shows "calls_since s (run (e # es) s) =
           calls_since s (step e s) @ calls_since (step e s) (run es (step e s))"
proof -
  obtain xs where xs: "calls (step e s) = calls s @ xs"
    using calls_step [OF assms, of e] by blast
  obtain ys where ys: "calls (run es (step e s)) = calls (step e s) @ ys"
    using calls_run_prefix [OF wf_step [OF assms], of es e] ..
  show ?thesis
    by (simp add: calls_since_def run_def [symmetric] ys xs)
       (simp add: run_def ys [unfolded run_def] xs)
qed

lemma dead_run_calls:
  "wf_state s \<Longrightarrow> dead h s \<Longrightarrow> h \<notin> c_timer ` set (calls_since s (run es s))"
proof (induction es arbitrary: s)
  case Nil
  then show ?case by (simp add: run_def calls_since_def)
next
  case (Cons e es)
  have a: "h \<notin> c_timer ` set (calls_since s (step e s))"
    using Cons.prems by (rule dead_step_calls)
  have "h \<notin> c_timer ` set (calls_since (step e s) (run es (step e s)))"
    using Cons.prems by (intro Cons.IH wf_step dead_step)
  with a show ?case
    by (auto simp: calls_since_run_Cons [OF Cons.prems(1)])
qed

lemma wf_not_diverged:
  "wf_state s \<Longrightarrow> \<not> diverged s \<Longrightarrow> debounceTimerRef s = None \<and> timers s = []"
  by (cases "debounceTimerRef s") (auto simp: wf_state_def diverged_def)

lemma step_input_same:
  assumes "wf_state s" "is_input e" "\<not> tears_down e s"
  shows "step e s = s"
proof (cases e)
  case (Keystroke v)
  with assms show ?thesis
    by (simp add: handleInputChange_def rerender_wf_same)
next
  case (SetProps p)
  with assms have "p_value p = p_value (cur_props s)"
    by (simp add: debounce_deps_changed_def)
  with assms SetProps show ?thesis
    by (simp add: rerender_wf_same)
qed (use assms in simp_all)

text \<open>Running the cleanup of the second effect kills the pending timeout without a call.\<close>

lemma torn_down_dead:
  assumes "wf_state s" "mounted s" "debounceTimerRef s = Some h" "tears_down e s"
  shows "dead h (step e s) \<and> calls (step e s) = calls s"
proof -
  from assms(1,3) have h: "h < next_handle s"
    by (rule wf_pending)
  from assms(4) have ne: "\<forall>d. e \<noteq> Elapse d"
    by auto
  have "dead h (step e s)"
  proof (cases e)
    case (Keystroke v)
    with assms h show ?thesis
      by (simp add: handleInputChange_def rerender_wf_same dead_def new_timer_def)
  next
    case (SetProps p)
    show ?thesis
    proof (cases "p_value p = p_value (cur_props s)")
      case True
      with assms h SetProps show ?thesis
        by (simp add: rerender_wf_same dead_def new_timer_def)
    next
      case False
      with assms h SetProps show ?thesis
        by (simp add: rerender_wf_new dead_def)
    qed
  next
    case (Elapse d)
    with ne show ?thesis by simp
  next
    case Unmount
    with assms h show ?thesis
      by (simp add: cleanup_wf dead_def)
  qed
  with ne show ?thesis
    by (simp add: calls_input)
qed

lemma dead_after_step:
  assumes "wf_state s" "dead h (step e s)" "calls (step e s) = calls s"
  shows "h \<notin> c_timer ` set (calls_since s (run (e # es) s))"
proof -
  have "h \<notin> c_timer ` set (calls_since (step e s) (run es (step e s)))"
    using assms(1,2) by (intro dead_run_calls wf_step)
  moreover have "calls_since s (step e s) = []"
    using assms(3) by (simp add: calls_since_def)
  ultimately show ?thesis
    by (simp add: calls_since_run_Cons [OF assms(1)])
qed

lemma effect_wf:
  assumes "wf_state s" "iv \<noteq> or_empty (p_value p)"
  shows "debounce_effect iv p s =
           s\<lparr>timers := [new_timer p iv s], next_handle := Suc (next_handle s),
             debounceTimerRef := Some (next_handle s)\<rparr>"
proof (cases "debounceTimerRef s")
  case None
  with assms show ?thesis
    by (simp add: effect_idle wf_idle)
next
  case (Some h)
  from assms(1) Some obtain dl where "timers s =
      [\<lparr>t_handle = h, t_deadline = dl, t_onChange = p_onChange (cur_props s),
        t_internalValue = internalValue s\<rparr>]"
    by (rule wf_pending)
  with Some assms(2) show ?thesis
    by (simp add: debounce_effect_def clearTimeout_def setTimeout_def new_timer_def)
qed

text \<open>Waiting on a state whose only timeout was registered just now.\<close>

lemma elapse_fresh:
  assumes "timers s = [t]" "t_deadline t = now s + D"
  shows "elapse d s =
     (if d < D then s\<lparr>now := now s + d\<rparr>
      else s\<lparr>timers := [], debounceTimerRef := None, now := now s + d,
             calls := calls s @ (case t_onChange t of None \<Rightarrow> []
                                 | Some cb \<Rightarrow> [commit_call t cb])\<rparr>)"
  using assms by (simp add: elapse_single)

lemma elapse_twice_fresh:
  assumes "timers s = [t]" "t_deadline t = now s + D"
  shows "calls (elapse d2 (elapse d s)) =
     (if d + d2 < D then calls s
      else calls s @ (case t_onChange t of None \<Rightarrow> [] | Some cb \<Rightarrow> [commit_call t cb]))"
proof (cases "d < D")
  case True
  then have "elapse d s = s\<lparr>now := now s + d\<rparr>"
    using assms by (simp add: elapse_fresh)
  with assms True show ?thesis
    by (simp add: elapse_single)
next
  case False
  then show ?thesis
    using assms by (simp add: elapse_fresh elapse_idle)
qed

lemma run_append: "run (xs @ ys) s = run ys (run xs s)"
  by (simp add: run_def)

lemma run_Cons: "run (e # es) s = run es (step e s)"
  by (simp add: run_def)

lemma host_delay_honoured: "honoured n d \<Longrightarrow> host_delay n = d"
  by (simp add: honoured_def)

lemma elapse_short:
  assumes "fresh s" "g < host_delay (p_debounceMs (cur_props s))"
  shows "elapse g s = s\<lparr>now := now s + g\<rparr>"
proof (cases "diverged s")
  case False
  with assms have "timers s = []" by (simp add: fresh_def)
  then show ?thesis by (simp add: elapse_idle)
next
  case True
  with assms(1) obtain t where "timers s = [t]"
    "t_deadline t = now s + host_delay (p_debounceMs (cur_props s))"
    by (auto simp: fresh_def)
  with assms(2) show ?thesis
    by (simp add: elapse_fresh)
qed

lemma keystroke_changing:
  assumes "wf_state s" "mounted s" "v \<noteq> internalValue s"
  shows "step (Keystroke v) s =
     (if v \<noteq> or_empty (p_value (cur_props s))
      then s\<lparr>internalValue := v, debounceTimerRef := Some (next_handle s),
             timers := [new_timer (cur_props s) v s], next_handle := Suc (next_handle s)\<rparr>
      else s\<lparr>internalValue := v, debounceTimerRef := None, timers := []\<rparr>)"
  using assms
  by (simp add: handleInputChange_def rerender_wf_same debounce_deps_changed_def)

lemma keystroke_changing_fresh:
  assumes "wf_state s" "mounted s" "v \<noteq> internalValue s"
  shows "fresh (step (Keystroke v) s) \<and> mounted (step (Keystroke v) s) \<and>
         calls (step (Keystroke v) s) = calls s \<and> now (step (Keystroke v) s) = now s \<and>
         internalValue (step (Keystroke v) s) = v \<and>
         cur_props (step (Keystroke v) s) = cur_props s"
  unfolding keystroke_changing [OF assms]
  using assms(2) by (simp add: fresh_def diverged_def new_timer_def)

lemma replacement_fresh:
  assumes "wf_state s" "mounted s" "p_value q = p_value (cur_props s)"
    and "p_onChange q \<noteq> p_onChange (cur_props s) \<or>
         p_debounceMs q \<noteq> p_debounceMs (cur_props s)"
  shows "fresh (step (SetProps q) s) \<and> mounted (step (SetProps q) s) \<and>
         calls (step (SetProps q) s) = calls s \<and> now (step (SetProps q) s) = now s \<and>
         internalValue (step (SetProps q) s) = internalValue s \<and>
         cur_props (step (SetProps q) s) = q"
proof -
  have ch: "debounce_deps_changed q (internalValue s) s"
    using assms(4) by (auto simp: debounce_deps_changed_def)
  show ?thesis
    using assms(1,2,3) ch
    by (simp add: rerender_wf_same fresh_def diverged_def new_timer_def)
qed

text \<open>
  A quiet burst makes no call, keeps the external value, and ends with the text of its
  last keystroke, the props of its last replacement and a timeout registered at its
  last event.
\<close>

lemma burst_quiet:
  assumes "wf_state s" "mounted s" "fresh s"
    and "quiet_burst (internalValue s) (cur_props s) ks"
  shows "wf_state (run (burst ks) s) \<and> fresh (run (burst ks) s) \<and>
         calls (run (burst ks) s) = calls s \<and>
         now (run (burst ks) s) = now s + sum_list (map fst ks) \<and>
         internalValue (run (burst ks) s) = final_text (internalValue s) ks \<and>
         cur_props (run (burst ks) s) = final_props (cur_props s) ks \<and>
         p_value (final_props (cur_props s) ks) = p_value (cur_props s)"
  using assms
proof (induction ks arbitrary: s)
  case Nil
  then show ?case by (simp add: run_def)
next
  case (Cons k ks)
  obtain g e where k: "k = (g, e)" by (cases k)
  define s1 where "s1 = elapse g s"
  define s2 where "s2 = step e s1"
  have input: "is_input e"
    using Cons.prems(4) k by (cases e) simp_all
  have g: "g < host_delay (p_debounceMs (cur_props s))"
    using Cons.prems(4) k by (cases e) simp_all
  have s1: "s1 = s\<lparr>now := now s + g\<rparr>"
    unfolding s1_def using Cons.prems(3) g by (rule elapse_short)
  have w1: "wf_state s1"
    unfolding s1_def using Cons.prems(1) by (rule wf_elapse)
  have m1: "mounted s1"
    using Cons.prems(2) by (simp add: s1)
  have w2: "wf_state s2"
    unfolding s2_def using w1 by (rule wf_step)
  have p2: "fresh s2 \<and> mounted s2 \<and> calls s2 = calls s \<and> now s2 = now s + g \<and>
            quiet_burst (internalValue s2) (cur_props s2) ks \<and>
            final_text (internalValue s2) ks = final_text (internalValue s) (k # ks) \<and>
            final_props (cur_props s2) ks = final_props (cur_props s) (k # ks) \<and>
            p_value (cur_props s2) = p_value (cur_props s)"
  proof (cases e)
    case (Keystroke v)
    with Cons.prems(4) k have "v \<noteq> internalValue s1" "quiet_burst v (cur_props s) ks"
      by (simp_all add: s1)
    moreover from this w1 m1
    have "fresh (step (Keystroke v) s1) \<and> mounted (step (Keystroke v) s1) \<and>
          calls (step (Keystroke v) s1) = calls s1 \<and>
          now (step (Keystroke v) s1) = now s1 \<and>
          internalValue (step (Keystroke v) s1) = v \<and>
          cur_props (step (Keystroke v) s1) = cur_props s1"
      by (intro keystroke_changing_fresh)
    ultimately show ?thesis
      unfolding s2_def Keystroke k by (simp add: s1)
  next
    case (SetProps q)
    with Cons.prems(4) k have q: "p_value q = p_value (cur_props s1)"
      "p_onChange q \<noteq> p_onChange (cur_props s1) \<or>
       p_debounceMs q \<noteq> p_debounceMs (cur_props s1)"
      "quiet_burst (internalValue s) q ks"
      by (simp_all add: s1)
    from w1 m1 q(1,2)
    have "fresh (step (SetProps q) s1) \<and> mounted (step (SetProps q) s1) \<and>
          calls (step (SetProps q) s1) = calls s1 \<and>
          now (step (SetProps q) s1) = now s1 \<and>
          internalValue (step (SetProps q) s1) = internalValue s1 \<and>
          cur_props (step (SetProps q) s1) = q"
      by (rule replacement_fresh)
    with q show ?thesis
      unfolding s2_def SetProps k by (simp add: s1)
  qed (use input in simp_all)
  then have f2: "fresh s2" and m2: "mounted s2"
    and q2: "quiet_burst (internalValue s2) (cur_props s2) ks"
    by simp_all
  have ih: "wf_state (run (burst ks) s2) \<and> fresh (run (burst ks) s2) \<and>
         calls (run (burst ks) s2) = calls s2 \<and>
         now (run (burst ks) s2) = now s2 + sum_list (map fst ks) \<and>
         internalValue (run (burst ks) s2) = final_text (internalValue s2) ks \<and>
         cur_props (run (burst ks) s2) = final_props (cur_props s2) ks \<and>
         p_value (final_props (cur_props s2) ks) = p_value (cur_props s2)"
    using w2 m2 f2 q2 by (rule Cons.IH)
  have r: "run (burst (k # ks)) s = run (burst ks) s2"
    by (simp add: k run_def s2_def s1_def)
  show ?case
    unfolding r using ih p2 by (simp add: k)
qed

text \<open>
  Silence of at least the host's delay after a fresh state makes the one pending call,
  when a callback was supplied.
\<close>

lemma silence_commits:
  assumes "wf_state s" "fresh s" "host_delay (p_debounceMs (cur_props s)) \<le> d"
  shows "\<exists>xs. calls (elapse d s) = calls s @ xs \<and>
           map observed xs =
             (if diverged s
              then (case p_onChange (cur_props s) of
                      None \<Rightarrow> []
                    | Some cb \<Rightarrow>
                        [(now s + host_delay (p_debounceMs (cur_props s)), cb,
                          \<lparr>target_value = internalValue s,
                           currentTarget_value = internalValue s\<rparr>)])
              else [])"
proof (cases "diverged s")
  case False
  with assms have "timers s = []" by (simp add: fresh_def)
  with False show ?thesis by (simp add: elapse_idle)
next
  case True
  with assms(2) obtain t where t: "timers s = [t]"
    "t_deadline t = now s + host_delay (p_debounceMs (cur_props s))"
    by (auto simp: fresh_def)
  with assms(1) have "t_onChange t = p_onChange (cur_props s)"
    "t_internalValue t = internalValue s"
    by (cases "debounceTimerRef s"; simp add: wf_state_def)+
  with t True assms(3) show ?thesis
    by (simp add: elapse_fresh observed_def commit_call_def split: option.splits)
qed

section \<open>The claims\<close>

text \<open>
  C8 (no lag). A keystroke sets \<open>internalValue\<close> to the new text at once, whatever
  happened before and whatever \<^verbatim>\<open>debounceMs\<close> is; the value handed to the widget is that
  text, and no time passes in the handler.
\<close>

theorem C8_keystroke_is_synchronous:
  assumes "mounted s" and "Unmount \<notin> set es"
  shows "internalValue (step (Keystroke newValue) (run es s)) = newValue \<and>
         w_value (render (step (Keystroke newValue) (run es s))) = newValue \<and>
         now (step (Keystroke newValue) (run es s)) = now (run es s)"
proof -
  have m: "mounted (run es s)"
    using assms by (rule mounted_run)
  have same: "p_value (cur_props (run es s)) = p_value (cur_props (run es s))"
    by simp
  show ?thesis
    using m
    by (simp add: handleInputChange_def render_def now_commit_pass
        rerender_same_value [OF same] internalValue_commit_pass)
qed

theorem C8_witness:
  "mounted ex_idle \<and> Unmount \<notin> set [Keystroke ''a'', Elapse 100] \<and>
   internalValue (step (Keystroke ''ab'') (run [Keystroke ''a'', Elapse 100] ex_idle)) = ''ab'' \<and>
   w_value (render (step (Keystroke ''ab'') (run [Keystroke ''a'', Elapse 100] ex_idle))) = ''ab''"
  using C8_keystroke_is_synchronous [of ex_idle "[Keystroke ''a'', Elapse 100]" "''ab''"]
  by (simp add: ex_idle_eq)

text \<open>
  C9 (unchanged external value). When new props repeat the previous \<^verbatim>\<open>value\<close>, the
  dependency array of the synchronising effect is unchanged, the effect does not run, no
  state update is queued and \<open>internalValue\<close> keeps the text being edited.
\<close>

theorem C9_same_value_keeps_edit:
  assumes "mounted s" and "p_value p = p_value (cur_props s)"
  shows "\<not> sync_deps_changed p s \<and>
         snd (commit_pass p (internalValue s) s) = None \<and>
         internalValue (step (SetProps p) s) = internalValue s"
proof -
  have "\<not> sync_deps_changed p s"
    using assms(2) by (simp add: sync_deps_changed_def)
  moreover from this have "snd (commit_pass p (internalValue s) s) = None"
    by (simp add: commit_pass_def Let_def)
  moreover have "internalValue (step (SetProps p) s) = internalValue s"
    using assms by (simp add: rerender_same_value internalValue_commit_pass)
  ultimately show ?thesis by simp
qed

theorem C9_witness:
  "mounted ex_pending \<and>
   p_value (ex_props\<lparr>p_onChange := Some 8\<rparr>) = p_value (cur_props ex_pending) \<and>
   internalValue (step (SetProps (ex_props\<lparr>p_onChange := Some 8\<rparr>)) ex_pending) = ''y''"
  using C9_same_value_keeps_edit [of ex_pending "ex_props\<lparr>p_onChange := Some 8\<rparr>"]
  by (simp add: ex_pending_eq)


text \<open>
  C7 (external override). New props with a different \<^verbatim>\<open>value\<close> set \<open>internalValue\<close>
  to that value (the empty string when it is absent) within the same handler: no time
  passes and no call is made. The scheduling rule is evaluated again against the new
  value; the two now agree, so the pending timeout is cancelled and none is left.
\<close>

theorem C7_external_value_overrides:
  assumes "wf_state s" and "mounted s" and "p_value p \<noteq> p_value (cur_props s)"
  shows "internalValue (step (SetProps p) s) = or_empty (p_value p) \<and>
         w_value (render (step (SetProps p) s)) = or_empty (p_value p) \<and>
         cur_props (step (SetProps p) s) = p \<and>
         now (step (SetProps p) s) = now s \<and>
         calls (step (SetProps p) s) = calls s \<and>
         \<not> diverged (step (SetProps p) s) \<and>
         timers (step (SetProps p) s) = [] \<and>
         debounceTimerRef (step (SetProps p) s) = None"
  using assms by (simp add: rerender_wf_new render_def diverged_def)

theorem C7_witness:
  "wf_state ex_pending \<and> mounted ex_pending \<and>
   p_value (ex_props\<lparr>p_value := Some ''z''\<rparr>) \<noteq> p_value (cur_props ex_pending) \<and>
   internalValue ex_pending = ''y'' \<and> timers ex_pending \<noteq> [] \<and>
   internalValue (step (SetProps (ex_props\<lparr>p_value := Some ''z''\<rparr>)) ex_pending) = ''z'' \<and>
   timers (step (SetProps (ex_props\<lparr>p_value := Some ''z''\<rparr>)) ex_pending) = []"
  using C7_external_value_overrides [of ex_pending "ex_props\<lparr>p_value := Some ''z''\<rparr>"]
    wf_ex_pending
  by (simp add: ex_pending_eq ex_props_def or_empty_def)

text \<open>
  C3 (idempotent return). While a timeout with handle \<open>h\<close> is pending, a keystroke or
  new props after which \<open>internalValue\<close> equals the external value cancel it: the table
  is empty, the cell is empty, no call is made by the event, none by waiting any time
  after it, and no later call is ever made by timeout \<open>h\<close>.
\<close>

theorem C3_return_to_external_cancels:
  assumes "wf_state s" and "mounted s" and "debounceTimerRef s = Some h"
    and "is_input e" and "\<not> diverged (step e s)"
  shows "timers (step e s) = [] \<and> debounceTimerRef (step e s) = None \<and>
         calls (step e s) = calls s \<and>
         calls (elapse d (step e s)) = calls s \<and>
         h \<notin> c_timer ` set (calls_since s (run (e # es) s))"
proof -
  have div: "diverged s"
    using assms(1,3) by (auto simp: diverged_def elim: wf_pending)
  have td: "tears_down e s"
  proof (rule ccontr)
    assume "\<not> tears_down e s"
    with assms(1,4) have "step e s = s" by (rule step_input_same)
    with div assms(5) show False by simp
  qed
  have dc: "dead h (step e s) \<and> calls (step e s) = calls s"
    using assms(1,2,3) td by (rule torn_down_dead)
  have idle: "debounceTimerRef (step e s) = None \<and> timers (step e s) = []"
    using wf_step [OF assms(1)] assms(5) by (rule wf_not_diverged)
  have "h \<notin> c_timer ` set (calls_since s (run (e # es) s))"
    using assms(1) dc by (intro dead_after_step) simp_all
  with dc idle show ?thesis
    by (simp add: elapse_idle)
qed

theorem C3_witness:
  "wf_state ex_pending \<and> mounted ex_pending \<and> debounceTimerRef ex_pending = Some 1 \<and>
   is_input (Keystroke ''x'') \<and> \<not> diverged (step (Keystroke ''x'') ex_pending) \<and>
   timers (step (Keystroke ''x'') ex_pending) = [] \<and>
   calls (elapse 10000 (step (Keystroke ''x'') ex_pending)) = []"
proof -
  have "step (Keystroke ''x'') ex_pending =
          ex_pending\<lparr>internalValue := ''x'', debounceTimerRef := None, timers := []\<rparr>"
    using wf_ex_pending
    by (simp add: handleInputChange_def rerender_wf_same)
       (simp add: ex_pending_eq ex_props_def or_empty_def debounce_deps_changed_def)
  then have nd: "\<not> diverged (step (Keystroke ''x'') ex_pending)"
    by (simp add: diverged_def ex_pending_eq ex_props_def or_empty_def)
  have r: "debounceTimerRef ex_pending = Some 1" "mounted ex_pending" "calls ex_pending = []"
    by (simp_all add: ex_pending_eq)
  show ?thesis
    using C3_return_to_external_cancels [of ex_pending 1 "Keystroke ''x''" 10000 "[]"]
      wf_ex_pending nd r
    by simp
qed

text \<open>
  C5 (teardown). While a timeout with handle \<open>h\<close> is pending, unmounting, or a keystroke
  or new props that change a dependency of the second effect (\<open>internalValue\<close>,
  \<^verbatim>\<open>value\<close>, \<^verbatim>\<open>onChange\<close>, \<^verbatim>\<open>debounceMs\<close>), removes \<open>h\<close> from the host's table
  without a call, and whatever happens afterwards no call is made by timeout \<open>h\<close>.
\<close>

theorem C5_cancelled_timer_never_calls:
  assumes "wf_state s" and "mounted s" and "debounceTimerRef s = Some h"
    and "tears_down e s"
  shows "h \<notin> t_handle ` set (timers (step e s)) \<and>
         calls (step e s) = calls s \<and>
         h \<notin> c_timer ` set (calls_since s (run (e # es) s))"
proof -
  have dc: "dead h (step e s) \<and> calls (step e s) = calls s"
    using assms by (rule torn_down_dead)
  then have "h \<notin> c_timer ` set (calls_since s (run (e # es) s))"
    using assms(1) by (intro dead_after_step) simp_all
  with dc show ?thesis
    by (simp add: dead_def)
qed

theorem C5_witness:
  "wf_state ex_pending \<and> mounted ex_pending \<and> debounceTimerRef ex_pending = Some 1 \<and>
   tears_down Unmount ex_pending \<and>
   1 \<notin> t_handle ` set (timers (step Unmount ex_pending)) \<and>
   1 \<notin> c_timer ` set (calls_since ex_pending (run [Unmount, Elapse 10000] ex_pending))"
  using C5_cancelled_timer_never_calls [of ex_pending 1 Unmount "[Elapse 10000]"]
    wf_ex_pending
  by (simp add: ex_pending_eq)





text \<open>
  C1 as stated fails where it says that the new timer has length \<^verbatim>\<open>debounceMs\<close>. The
  component passes \<^verbatim>\<open>debounceMs\<close> to the host unchecked (line 68), and the host does
  not honour every number. With \<^verbatim>\<open>debounceMs = 2147483648\<close> the keystroke \<^verbatim>\<open>"y"\<close>
  at time 0 leaves a divergence and a timer that expires at time 1, and the commit is
  made after 1 ms.
\<close>

theorem C1_counterexample:
  "p_debounceMs (cur_props (run [Keystroke ''y''] (mount ex_props_huge))) = Finite 2147483648 \<and>
   diverged (run [Keystroke ''y''] (mount ex_props_huge)) \<and>
   now (run [Keystroke ''y''] (mount ex_props_huge)) = 0 \<and>
   timers (run [Keystroke ''y''] (mount ex_props_huge)) =
     [\<lparr>t_handle = 1, t_deadline = 1, t_onChange = Some 7, t_internalValue = ''y''\<rparr>] \<and>
   calls (run [Keystroke ''y'', Elapse 1] (mount ex_props_huge)) =
     [\<lparr>c_time = 1, c_callback = 7,
       c_event = \<lparr>target_value = ''y'', currentTarget_value = ''y''\<rparr>, c_timer = 1\<rparr>]"
  by (simp add: run_def mount_eq handleInputChange_def rerender_wf_same elapse_idle
      elapse_single wf_state_def debounce_deps_changed_def new_timer_def commit_call_def
      or_empty_def diverged_def ex_props_huge_def)

text \<open>
  C1, amended (scheduling rule). In a state where \<open>internalValue\<close> differs from the
  external value, the body of the second effect leaves exactly one timeout in the host's
  table: a new one, under a fresh handle, whose length \<open>D\<close> is the delay the host gives
  \<^verbatim>\<open>debounceMs\<close>; a timeout that was pending is gone. \<open>D\<close> is \<^verbatim>\<open>debounceMs\<close> itself
  whenever that is a whole number of milliseconds from 1 to 2147483647. Waiting less than
  \<open>D\<close> makes no call. Waiting \<open>D\<close> or longer, in one piece or in two, makes exactly one
  call of the callback of this render (none when no callback was supplied), at the
  deadline, with \<open>internalValue\<close> in both fields of the event, and leaves the cell and
  the table empty.
\<close>

theorem C1_schedule_then_commit_once:
  assumes "wf_state s" and "diverged s"
  shows
    "let s' = debounce_effect (internalValue s) (cur_props s) s;
         D = host_delay (p_debounceMs (cur_props s));
         commit = (case p_onChange (cur_props s) of
                     None \<Rightarrow> []
                   | Some cb \<Rightarrow>
                       [\<lparr>c_time = now s + D, c_callback = cb,
                         c_event = \<lparr>target_value = internalValue s,
                                    currentTarget_value = internalValue s\<rparr>,
                         c_timer = next_handle s\<rparr>])
     in (honoured (p_debounceMs (cur_props s)) n \<longrightarrow> D = n) \<and>
        timers s' =
          [\<lparr>t_handle = next_handle s, t_deadline = now s + D,
            t_onChange = p_onChange (cur_props s), t_internalValue = internalValue s\<rparr>] \<and>
        debounceTimerRef s' = Some (next_handle s) \<and>
        set_option (debounceTimerRef s) \<inter> t_handle ` set (timers s') = {} \<and>
        calls s' = calls s \<and>
        calls (elapse d s') = (if d < D then calls s else calls s @ commit) \<and>
        timers (elapse d s') = (if d < D then timers s' else []) \<and>
        debounceTimerRef (elapse d s') = (if d < D then Some (next_handle s) else None) \<and>
        calls (elapse d2 (elapse d s')) = (if d + d2 < D then calls s else calls s @ commit)"
proof -
  let ?t = "new_timer (cur_props s) (internalValue s) s"
  let ?D = "host_delay (p_debounceMs (cur_props s))"
  define s' where "s' = debounce_effect (internalValue s) (cur_props s) s"
  have s': "s' = s\<lparr>timers := [?t], next_handle := Suc (next_handle s),
                    debounceTimerRef := Some (next_handle s)\<rparr>"
    unfolding s'_def using assms by (intro effect_wf) (simp_all add: diverged_def)
  have t: "timers s' = [?t]" "t_deadline ?t = now s' + ?D"
    by (simp_all add: s' new_timer_def)
  have old: "set_option (debounceTimerRef s) \<inter> t_handle ` set (timers s') = {}"
  proof (cases "debounceTimerRef s")
    case None
    then show ?thesis by simp
  next
    case (Some h)
    with assms(1) have "h < next_handle s" by (auto elim: wf_pending)
    with Some show ?thesis by (simp add: s' new_timer_def)
  qed
  have one: "elapse d s' =
     (if d < ?D then s'\<lparr>now := now s' + d\<rparr>
      else s'\<lparr>timers := [], debounceTimerRef := None, now := now s' + d,
             calls := calls s' @ (case t_onChange ?t of None \<Rightarrow> []
                                  | Some cb \<Rightarrow> [commit_call ?t cb])\<rparr>)"
    using t by (rule elapse_fresh)
  have two: "calls (elapse d2 (elapse d s')) =
     (if d + d2 < ?D then calls s'
      else calls s' @ (case t_onChange ?t of None \<Rightarrow> [] | Some cb \<Rightarrow> [commit_call ?t cb]))"
    using t by (rule elapse_twice_fresh)
  have c: "(case t_onChange ?t of None \<Rightarrow> [] | Some cb \<Rightarrow> [commit_call ?t cb]) =
           (case p_onChange (cur_props s) of
              None \<Rightarrow> []
            | Some cb \<Rightarrow>
                [\<lparr>c_time = now s + ?D, c_callback = cb,
                  c_event = \<lparr>target_value = internalValue s,
                             currentTarget_value = internalValue s\<rparr>,
                  c_timer = next_handle s\<rparr>])"
    by (simp add: new_timer_def commit_call_def split: option.splits)
  have fields: "calls s' = calls s" "debounceTimerRef s' = Some (next_handle s)"
    by (simp_all add: s')
  have hon: "honoured (p_debounceMs (cur_props s)) n \<longrightarrow> ?D = n"
    by (simp add: host_delay_honoured)
  show ?thesis
    unfolding Let_def s'_def [symmetric]
    using old t(1) one two hon
    by (simp add: c fields) (simp add: new_timer_def)
qed

theorem C1_witness:
  "wf_state ex_pending \<and> diverged ex_pending \<and>
   honoured (p_debounceMs (cur_props ex_pending)) 500 \<and>
   timers (debounce_effect (internalValue ex_pending) (cur_props ex_pending) ex_pending) =
     [\<lparr>t_handle = 2, t_deadline = 700, t_onChange = Some 7, t_internalValue = ''y''\<rparr>] \<and>
   calls (elapse 499
           (debounce_effect (internalValue ex_pending) (cur_props ex_pending) ex_pending)) = [] \<and>
   calls (elapse 500
           (debounce_effect (internalValue ex_pending) (cur_props ex_pending) ex_pending)) =
     [\<lparr>c_time = 700, c_callback = 7,
       c_event = \<lparr>target_value = ''y'', currentTarget_value = ''y''\<rparr>, c_timer = 2\<rparr>]"
proof -
  have d: "diverged ex_pending"
    by (simp add: diverged_def ex_pending_eq ex_props_def or_empty_def)
  have f: "internalValue ex_pending = ''y''" "cur_props ex_pending = ex_props"
    "next_handle ex_pending = 2" "now ex_pending = 200" "calls ex_pending = []"
    by (simp_all add: ex_pending_eq)
  have h: "honoured (p_debounceMs ex_props) 500"
    by (simp add: honoured_def ex_props_def)
  show ?thesis
    using C1_schedule_then_commit_once [OF wf_ex_pending d, of 500 499 0]
      C1_schedule_then_commit_once [OF wf_ex_pending d, of 500 500 0]
      wf_ex_pending d h
    by (simp add: Let_def f ex_props_def)
qed


text \<open>
  C4 as stated fails: a keystroke whose text equals the current \<open>internalValue\<close>
  changes no dependency of the second effect, so the running countdown goes on. In the
  example the timeout registered at time 0 still expires at 500 after the repeated
  keystroke at time 200, not at 700.
\<close>

theorem C4_counterexample:
  "debounceTimerRef ex_pending = Some 1 \<and> diverged ex_pending \<and>
   internalValue ex_pending = ''y'' \<and>
   diverged (step (Keystroke ''y'') ex_pending) \<and>
   now (step (Keystroke ''y'') ex_pending) = 200 \<and>
   p_debounceMs (cur_props (step (Keystroke ''y'') ex_pending)) = Finite 500 \<and>
   map t_deadline (timers (step (Keystroke ''y'') ex_pending)) = [500] \<and>
   map t_handle (timers (step (Keystroke ''y'') ex_pending)) = [1]"
proof -
  have "step (Keystroke ''y'') ex_pending = ex_pending"
    using wf_ex_pending
    by (simp add: handleInputChange_def rerender_wf_same)
       (simp add: ex_pending_eq debounce_deps_changed_def)
  then show ?thesis
    by (simp add: ex_pending_eq diverged_def ex_props_def or_empty_def)
qed

text \<open>
  C4, amended. While a timeout is pending, a keystroke or new props that change at least
  one dependency of the second effect and still leave a divergence replace the pending
  timeout by a new one, whose countdown starts from zero at the event: it expires after
  the delay the host gives the \<^verbatim>\<open>debounceMs\<close> of the new props, which is
  \<^verbatim>\<open>debounceMs\<close> itself whenever that is a whole number of milliseconds from 1 to
  2147483647. A keystroke with the text already held, like props identical to the
  current ones, changes no dependency and leaves the table as it is. No time passes in
  either case.
\<close>

theorem C4_restart_on_dependency_change:
  assumes "wf_state s" and "mounted s" and "debounceTimerRef s = Some h"
    and "is_input e" and "diverged (step e s)"
  shows "timers (step e s) =
           (if tears_down e s
            then [\<lparr>t_handle = next_handle s,
                   t_deadline = now s + host_delay (p_debounceMs (cur_props (step e s))),
                   t_onChange = p_onChange (cur_props (step e s)),
                   t_internalValue = internalValue (step e s)\<rparr>]
            else timers s) \<and>
         (tears_down e s \<longrightarrow> h \<notin> t_handle ` set (timers (step e s))) \<and>
         now (step e s) = now s \<and>
         (honoured (p_debounceMs (cur_props (step e s))) n \<longrightarrow>
            host_delay (p_debounceMs (cur_props (step e s))) = n)"
proof -
  have hon: "honoured (p_debounceMs (cur_props (step e s))) n \<longrightarrow>
             host_delay (p_debounceMs (cur_props (step e s))) = n"
    by (simp add: host_delay_honoured)
  have main: "timers (step e s) =
           (if tears_down e s
            then [\<lparr>t_handle = next_handle s,
                   t_deadline = now s + host_delay (p_debounceMs (cur_props (step e s))),
                   t_onChange = p_onChange (cur_props (step e s)),
                   t_internalValue = internalValue (step e s)\<rparr>]
            else timers s) \<and>
         (tears_down e s \<longrightarrow> h \<notin> t_handle ` set (timers (step e s))) \<and>
         now (step e s) = now s"
  proof (cases "tears_down e s")
    case False
    with assms(1,4) have "step e s = s" by (intro step_input_same)
    with False show ?thesis by simp
  next
    case True
    from assms(1,3) have h: "h < next_handle s" by (rule wf_pending)
    show ?thesis
    proof (cases e)
      case (Keystroke v)
      with assms True h show ?thesis
        by (simp add: handleInputChange_def rerender_wf_same new_timer_def diverged_def
            split: if_splits)
    next
      case (SetProps p)
      show ?thesis
      proof (cases "p_value p = p_value (cur_props s)")
        case same: True
        with assms True h SetProps show ?thesis
          by (simp add: rerender_wf_same new_timer_def diverged_def split: if_splits)
      next
        case False
        with assms(1,2) SetProps have "\<not> diverged (step e s)"
          by (simp add: rerender_wf_new diverged_def)
        with assms(5) show ?thesis by simp
      qed
    qed (use assms(4) in simp_all)
  qed
  from main hon show ?thesis by blast
qed

theorem C4_witness:
  "wf_state ex_pending \<and> mounted ex_pending \<and> debounceTimerRef ex_pending = Some 1 \<and>
   is_input (Keystroke ''yz'') \<and> diverged (step (Keystroke ''yz'') ex_pending) \<and>
   tears_down (Keystroke ''yz'') ex_pending \<and> now ex_pending = 200 \<and>
   honoured (p_debounceMs (cur_props (step (Keystroke ''yz'') ex_pending))) 500 \<and>
   timers (step (Keystroke ''yz'') ex_pending) =
     [\<lparr>t_handle = 2, t_deadline = 700, t_onChange = Some 7, t_internalValue = ''yz''\<rparr>]"
proof -
  have st: "step (Keystroke ''yz'') ex_pending =
          ex_pending\<lparr>internalValue := ''yz'', debounceTimerRef := Some 2,
            timers := [\<lparr>t_handle = 2, t_deadline = 700, t_onChange = Some 7,
                        t_internalValue = ''yz''\<rparr>],
            next_handle := 3\<rparr>"
    using wf_ex_pending
    by (simp add: handleInputChange_def rerender_wf_same)
       (simp add: ex_pending_eq debounce_deps_changed_def new_timer_def ex_props_def
         or_empty_def)
  have d: "diverged (step (Keystroke ''yz'') ex_pending)"
    unfolding diverged_def st
    by (simp add: ex_pending_eq ex_props_def or_empty_def)
  have f: "debounceTimerRef ex_pending = Some 1" "mounted ex_pending" "now ex_pending = 200"
    "tears_down (Keystroke ''yz'') ex_pending" "next_handle ex_pending = 2"
    by (simp_all add: ex_pending_eq debounce_deps_changed_def)
  have g: "cur_props (step (Keystroke ''yz'') ex_pending) = ex_props"
    "internalValue (step (Keystroke ''yz'') ex_pending) = ''yz''"
    unfolding st by (simp_all add: ex_pending_eq)
  have h: "honoured (p_debounceMs ex_props) 500"
    by (simp add: honoured_def ex_props_def)
  show ?thesis
    using C4_restart_on_dependency_change [of ex_pending 1 "Keystroke ''yz''" 500]
      wf_ex_pending d f h
    by (simp add: g ex_props_def del: step.simps tears_down.simps)
qed

text \<open>
  C10 as stated fails in two ways. With a timeout pending since time 0 and the clock at
  200, replacing \<^verbatim>\<open>debounceMs\<close> by 2147483648 registers a timeout that expires at 201
  and commits 1 ms after the replacement: the host does not honour the new value.
  Replacing \<^verbatim>\<open>onChange\<close> in props that also carry a new \<^verbatim>\<open>value\<close> cancels the pending
  timeout and registers none, so nothing is committed to the new callback.
\<close>

theorem C10_counterexample:
  "debounceTimerRef ex_pending = Some 1 \<and> now ex_pending = 200 \<and>
   timers (step (SetProps (ex_props\<lparr>p_debounceMs := Finite 2147483648\<rparr>)) ex_pending) =
     [\<lparr>t_handle = 2, t_deadline = 201, t_onChange = Some 7, t_internalValue = ''y''\<rparr>] \<and>
   calls (elapse 1
           (step (SetProps (ex_props\<lparr>p_debounceMs := Finite 2147483648\<rparr>)) ex_pending)) =
     [\<lparr>c_time = 201, c_callback = 7,
       c_event = \<lparr>target_value = ''y'', currentTarget_value = ''y''\<rparr>, c_timer = 2\<rparr>] \<and>
   timers (step (SetProps (ex_props\<lparr>p_value := Some ''z'', p_onChange := Some 8\<rparr>))
            ex_pending) = [] \<and>
   calls (elapse 10000
           (step (SetProps (ex_props\<lparr>p_value := Some ''z'', p_onChange := Some 8\<rparr>))
             ex_pending)) = []"
  by (simp add: ex_pending_eq ex_props_def rerender_wf_same rerender_wf_new elapse_idle
      elapse_single wf_state_def debounce_deps_changed_def new_timer_def commit_call_def
      or_empty_def)

text \<open>
  C10, amended (replaced callback or delay). While a timeout with handle \<open>h\<close> is
  pending, new props with another \<^verbatim>\<open>onChange\<close> or \<^verbatim>\<open>debounceMs\<close> cancel it. If the
  props keep \<^verbatim>\<open>value\<close>, a new timeout is registered that captures the new callback and
  the current \<open>internalValue\<close> and expires after the delay \<open>D\<close> that the host gives the
  new \<^verbatim>\<open>debounceMs\<close>, counted from the replacement; \<open>D\<close> is the new \<^verbatim>\<open>debounceMs\<close>
  itself whenever that is a whole number of milliseconds from 1 to 2147483647. If the
  props also change \<^verbatim>\<open>value\<close>, \<open>internalValue\<close> becomes that value and no timeout is
  registered. The cancelled timeout, which held the old callback, never makes a call. In
  every state reached afterwards, a call made by the next event goes to the callback of
  the props current in that state, carries the \<open>internalValue\<close> of that state, and
  happens within the host's delay for the \<^verbatim>\<open>debounceMs\<close> of those props.
\<close>

theorem C10_replacement_reschedules:
  assumes "wf_state s" and "mounted s" and "debounceTimerRef s = Some h"
    and "p_onChange p \<noteq> p_onChange (cur_props s) \<or>
         p_debounceMs p \<noteq> p_debounceMs (cur_props s)"
  shows
    "let s' = step (SetProps p) s;
         D = host_delay (p_debounceMs p);
         kept = (p_value p = p_value (cur_props s));
         commit = (case p_onChange p of
                     None \<Rightarrow> []
                   | Some cb \<Rightarrow>
                       [\<lparr>c_time = now s + D, c_callback = cb,
                         c_event = \<lparr>target_value = internalValue s,
                                    currentTarget_value = internalValue s\<rparr>,
                         c_timer = next_handle s\<rparr>])
     in (honoured (p_debounceMs p) n \<longrightarrow> D = n) \<and>
        timers s' =
          (if kept
           then [\<lparr>t_handle = next_handle s, t_deadline = now s + D,
                  t_onChange = p_onChange p, t_internalValue = internalValue s\<rparr>]
           else []) \<and>
        h \<notin> t_handle ` set (timers s') \<and>
        internalValue s' = (if kept then internalValue s else or_empty (p_value p)) \<and>
        calls s' = calls s \<and>
        calls (elapse d s') = (if kept \<and> D \<le> d then calls s @ commit else calls s) \<and>
        h \<notin> c_timer ` set (calls_since s (run (SetProps p # es) s)) \<and>
        (\<forall>c \<in> set (calls_since (run es s') (step e (run es s'))).
           Some (c_callback c) = p_onChange (cur_props (run es s')) \<and>
           target_value (c_event c) = internalValue (run es s') \<and>
           currentTarget_value (c_event c) = internalValue (run es s') \<and>
           c_time c \<le> now (run es s') + host_delay (p_debounceMs (cur_props (run es s'))))"
proof -
  let ?t = "new_timer p (internalValue s) s"
  let ?D = "host_delay (p_debounceMs p)"
  define s' where "s' = step (SetProps p) s"
  from assms(1,3) have h: "h < next_handle s"
    and div: "internalValue s \<noteq> or_empty (p_value (cur_props s))"
    by (auto elim: wf_pending)
  have ch: "debounce_deps_changed p (internalValue s) s"
    using assms(4) by (auto simp: debounce_deps_changed_def)
  have c: "(case t_onChange ?t of None \<Rightarrow> [] | Some cb \<Rightarrow> [commit_call ?t cb]) =
           (case p_onChange p of
              None \<Rightarrow> []
            | Some cb \<Rightarrow>
                [\<lparr>c_time = now s + ?D, c_callback = cb,
                  c_event = \<lparr>target_value = internalValue s,
                             currentTarget_value = internalValue s\<rparr>,
                  c_timer = next_handle s\<rparr>])"
    by (simp add: new_timer_def commit_call_def split: option.splits)
  have local: "timers s' =
          (if p_value p = p_value (cur_props s)
           then [\<lparr>t_handle = next_handle s, t_deadline = now s + ?D,
                  t_onChange = p_onChange p, t_internalValue = internalValue s\<rparr>]
           else []) \<and>
        h \<notin> t_handle ` set (timers s') \<and>
        internalValue s' =
          (if p_value p = p_value (cur_props s) then internalValue s
           else or_empty (p_value p)) \<and>
        calls s' = calls s \<and>
        calls (elapse d s') =
          (if p_value p = p_value (cur_props s) \<and> ?D \<le> d
           then calls s @ (case p_onChange p of
                     None \<Rightarrow> []
                   | Some cb \<Rightarrow>
                       [\<lparr>c_time = now s + ?D, c_callback = cb,
                         c_event = \<lparr>target_value = internalValue s,
                                    currentTarget_value = internalValue s\<rparr>,
                         c_timer = next_handle s\<rparr>])
           else calls s)"
  proof (cases "p_value p = p_value (cur_props s)")
    case True
    have s': "s' = s\<lparr>cur_props := p, debounceTimerRef := Some (next_handle s),
                      timers := [?t], next_handle := Suc (next_handle s)\<rparr>"
      unfolding s'_def using assms(1,2) True ch div
      by (simp add: rerender_wf_same)
    have t: "timers s' = [?t]" "t_deadline ?t = now s' + ?D"
      by (simp_all add: s' new_timer_def)
    have one: "calls (elapse d s') =
       (if d < ?D then calls s
        else calls s @ (case t_onChange ?t of None \<Rightarrow> [] | Some cb \<Rightarrow> [commit_call ?t cb]))"
      by (simp add: elapse_fresh [OF t]) (simp add: s')
    have "h \<notin> t_handle ` set (timers s')" "internalValue s' = internalValue s"
      "calls s' = calls s"
      using h by (simp_all add: s' new_timer_def)
    with True t(1) one show ?thesis
      by (simp add: c not_less) (simp add: new_timer_def)
  next
    case False
    have s': "s' = s\<lparr>cur_props := p, internalValue := or_empty (p_value p),
                      debounceTimerRef := None, timers := [],
                      next_handle := (if internalValue s \<noteq> or_empty (p_value p)
                                      then Suc (next_handle s) else next_handle s)\<rparr>"
      unfolding s'_def using assms(1,2) False
      by (simp add: rerender_wf_new)
    have "timers s' = []" by (simp add: s')
    then have "calls (elapse d s') = calls s'"
      by (simp add: elapse_idle)
    with False show ?thesis
      by (simp add: s')
  qed
  have td: "tears_down (SetProps p) s"
    using ch by simp
  have dc: "dead h (step (SetProps p) s) \<and> calls (step (SetProps p) s) = calls s"
    using assms(1,2,3) td by (rule torn_down_dead)
  then have never: "h \<notin> c_timer ` set (calls_since s (run (SetProps p # es) s))"
    using assms(1) by (intro dead_after_step) simp_all
  have w: "wf_state (run es s')"
    unfolding s'_def using assms(1) by (intro wf_run wf_step)
  obtain xs where xs: "calls (step e (run es s')) = calls (run es s') @ xs"
    "\<forall>c \<in> set xs.
        Some (c_callback c) = p_onChange (cur_props (run es s')) \<and>
        target_value (c_event c) = internalValue (run es s') \<and>
        currentTarget_value (c_event c) = internalValue (run es s') \<and>
        c_time c \<le> now (run es s') + host_delay (p_debounceMs (cur_props (run es s')))"
    using calls_step [OF w, of e] by blast
  then have later: "\<forall>c \<in> set (calls_since (run es s') (step e (run es s'))).
        Some (c_callback c) = p_onChange (cur_props (run es s')) \<and>
        target_value (c_event c) = internalValue (run es s') \<and>
        currentTarget_value (c_event c) = internalValue (run es s') \<and>
        c_time c \<le> now (run es s') + host_delay (p_debounceMs (cur_props (run es s')))"
    by (simp add: calls_since_def)
  have hon: "honoured (p_debounceMs p) n \<longrightarrow> ?D = n"
    by (simp add: host_delay_honoured)
  show ?thesis
    unfolding Let_def s'_def [symmetric]
    using local never later hon
    by blast
qed

theorem C10_witness:
  "wf_state ex_pending \<and> mounted ex_pending \<and> debounceTimerRef ex_pending = Some 1 \<and>
   p_onChange (ex_props\<lparr>p_onChange := Some 8, p_debounceMs := Finite 300\<rparr>) \<noteq>
     p_onChange (cur_props ex_pending) \<and>
   honoured (p_debounceMs (ex_props\<lparr>p_onChange := Some 8, p_debounceMs := Finite 300\<rparr>)) 300 \<and>
   timers (step (SetProps (ex_props\<lparr>p_onChange := Some 8, p_debounceMs := Finite 300\<rparr>))
            ex_pending) =
     [\<lparr>t_handle = 2, t_deadline = 500, t_onChange = Some 8, t_internalValue = ''y''\<rparr>] \<and>
   calls (elapse 300
           (step (SetProps (ex_props\<lparr>p_onChange := Some 8, p_debounceMs := Finite 300\<rparr>))
             ex_pending)) =
     [\<lparr>c_time = 500, c_callback = 8,
       c_event = \<lparr>target_value = ''y'', currentTarget_value = ''y''\<rparr>, c_timer = 2\<rparr>]"
proof -
  have f: "debounceTimerRef ex_pending = Some 1" "mounted ex_pending" "now ex_pending = 200"
    "next_handle ex_pending = 2" "internalValue ex_pending = ''y''" "calls ex_pending = []"
    "cur_props ex_pending = ex_props"
    by (simp_all add: ex_pending_eq)
  show ?thesis
    using C10_replacement_reschedules [of ex_pending 1
        "ex_props\<lparr>p_onChange := Some 8, p_debounceMs := Finite 300\<rparr>" 300 300 "[]"
        "Elapse 300"]
      wf_ex_pending
    by (simp add: Let_def f ex_props_def honoured_def del: step.simps)
qed


text \<open>
  C2 as stated fails in three ways. With owner value \<^verbatim>\<open>"x"\<close> and a 500 ms debounce,
  typing \<^verbatim>\<open>"y"\<close> and 200 ms later \<^verbatim>\<open>"x"\<close> makes no call at all, however long the
  silence. With owner value \<^verbatim>\<open>""\<close> and a 3000 ms debounce, the keystrokes \<^verbatim>\<open>"a"\<close>,
  \<^verbatim>\<open>"a"\<close>, \<^verbatim>\<open>"b"\<close> at 0, 2000 and 4000 ms make two calls, the first of them at
  3000 ms with the intermediate text \<^verbatim>\<open>"a"\<close>. With \<^verbatim>\<open>debounceMs = 2147483648\<close>, which
  the host does not honour, the keystrokes \<^verbatim>\<open>"a"\<close> and \<^verbatim>\<open>"ab"\<close> 1000 ms apart make
  one call each, 1 ms after the keystroke.
\<close>

theorem C2_counterexample:
  "calls (run [Keystroke ''y'', Elapse 200, Keystroke ''x'', Elapse 10000] (mount ex_props)) = [] \<and>
   calls (run [Keystroke ''a'', Elapse 2000, Keystroke ''a'', Elapse 2000, Keystroke ''b'',
               Elapse 3000] (mount ex_props_default)) =
     [\<lparr>c_time = 3000, c_callback = 7,
       c_event = \<lparr>target_value = ''a'', currentTarget_value = ''a''\<rparr>, c_timer = 1\<rparr>,
      \<lparr>c_time = 7000, c_callback = 7,
       c_event = \<lparr>target_value = ''b'', currentTarget_value = ''b''\<rparr>, c_timer = 2\<rparr>] \<and>
   calls (run [Keystroke ''a'', Elapse 1000, Keystroke ''ab'', Elapse 1000]
            (mount ex_props_huge)) =
     [\<lparr>c_time = 1, c_callback = 7,
       c_event = \<lparr>target_value = ''a'', currentTarget_value = ''a''\<rparr>, c_timer = 1\<rparr>,
      \<lparr>c_time = 1001, c_callback = 7,
       c_event = \<lparr>target_value = ''ab'', currentTarget_value = ''ab''\<rparr>, c_timer = 2\<rparr>]"
  by (simp add: run_def mount_eq handleInputChange_def rerender_wf_same elapse_idle
      elapse_single wf_state_def debounce_deps_changed_def new_timer_def commit_call_def
      or_empty_def ex_props_def ex_props_default_def ex_props_huge_def)

text \<open>
  C2, amended. Take any state of a mounted instance, a keystroke that changes the text,
  and then a burst with no external-value push: keystrokes that each change the text held
  in \<open>internalValue\<close>, possibly mixed with new props that keep \<^verbatim>\<open>value\<close> and replace
  \<^verbatim>\<open>onChange\<close> or \<^verbatim>\<open>debounceMs\<close>, each event arriving before the host's delay for the
  \<^verbatim>\<open>debounceMs\<close> then in force has passed since the event before it; and then silence of
  at least the host's delay for the final \<^verbatim>\<open>debounceMs\<close>. That delay is \<^verbatim>\<open>debounceMs\<close>
  itself whenever \<^verbatim>\<open>debounceMs\<close> is a whole number of milliseconds from 1 to 2147483647.
  If the text of the final keystroke differs from the external value and a callback is
  supplied at the end, exactly one call is made over the whole sequence: to that
  callback, the host's delay after the last event, carrying the text of the final
  keystroke in both fields. If the final text equals the external value, or no callback
  is supplied at the end, no call is made.
\<close>

theorem C2_burst_commits_once:
  assumes "wf_state s" and "mounted s" and "v \<noteq> internalValue s"
    and "quiet_burst v (cur_props s) ks"
    and "host_delay (p_debounceMs (final_props (cur_props s) ks)) \<le> d"
  shows "take (length (calls s)) (calls (run (Keystroke v # burst ks @ [Elapse d]) s)) =
           calls s \<and>
         map observed (calls_since s (run (Keystroke v # burst ks @ [Elapse d]) s)) =
           (if final_text v ks \<noteq> or_empty (p_value (cur_props s))
            then (case p_onChange (final_props (cur_props s) ks) of
                    None \<Rightarrow> []
                  | Some cb \<Rightarrow>
                      [(now s + sum_list (map fst ks) +
                          host_delay (p_debounceMs (final_props (cur_props s) ks)),
                        cb,
                        \<lparr>target_value = final_text v ks,
                         currentTarget_value = final_text v ks\<rparr>)])
            else []) \<and>
         (honoured (p_debounceMs (final_props (cur_props s) ks)) n \<longrightarrow>
            host_delay (p_debounceMs (final_props (cur_props s) ks)) = n)"
proof -
  define s1 where "s1 = step (Keystroke v) s"
  define sf where "sf = run (burst ks) s1"
  have k1: "fresh s1 \<and> mounted s1 \<and> calls s1 = calls s \<and> now s1 = now s \<and>
            internalValue s1 = v \<and> cur_props s1 = cur_props s"
    unfolding s1_def using assms(1,2,3) by (rule keystroke_changing_fresh)
  have w1: "wf_state s1"
    unfolding s1_def using assms(1) by (rule wf_step)
  have q1: "quiet_burst (internalValue s1) (cur_props s1) ks"
    using assms(4) k1 by simp
  have m1: "mounted s1" and f1: "fresh s1"
    using k1 by simp_all
  have q: "wf_state sf \<and> fresh sf \<and> calls sf = calls s1 \<and>
           now sf = now s1 + sum_list (map fst ks) \<and>
           internalValue sf = final_text (internalValue s1) ks \<and>
           cur_props sf = final_props (cur_props s1) ks \<and>
           p_value (final_props (cur_props s1) ks) = p_value (cur_props s1)"
    unfolding sf_def using w1 m1 f1 q1 by (rule burst_quiet)
  then have pf: "wf_state sf" "fresh sf" "calls sf = calls s"
    "now sf = now s + sum_list (map fst ks)" "internalValue sf = final_text v ks"
    "cur_props sf = final_props (cur_props s) ks"
    "p_value (final_props (cur_props s) ks) = p_value (cur_props s)"
    using k1 by simp_all
  have "host_delay (p_debounceMs (cur_props sf)) \<le> d"
    using assms(5) by (simp add: pf)
  with pf(1,2) obtain xs where xs: "calls (elapse d sf) = calls sf @ xs"
    "map observed xs =
       (if diverged sf
        then (case p_onChange (cur_props sf) of
                None \<Rightarrow> []
              | Some cb \<Rightarrow>
                  [(now sf + host_delay (p_debounceMs (cur_props sf)), cb,
                    \<lparr>target_value = internalValue sf,
                     currentTarget_value = internalValue sf\<rparr>)])
        else [])"
    using silence_commits [of sf d] by blast
  have r: "run (Keystroke v # burst ks @ [Elapse d]) s = elapse d sf"
    by (simp add: run_Cons run_append sf_def s1_def) (simp add: run_def)
  have hon: "honoured (p_debounceMs (final_props (cur_props s) ks)) n \<longrightarrow>
             host_delay (p_debounceMs (final_props (cur_props s) ks)) = n"
    by (simp add: host_delay_honoured)
  have "take (length (calls s)) (calls (elapse d sf)) = calls s \<and>
        map observed (calls_since s (elapse d sf)) =
           (if final_text v ks \<noteq> or_empty (p_value (cur_props s))
            then (case p_onChange (final_props (cur_props s) ks) of
                    None \<Rightarrow> []
                  | Some cb \<Rightarrow>
                      [(now s + sum_list (map fst ks) +
                          host_delay (p_debounceMs (final_props (cur_props s) ks)),
                        cb,
                        \<lparr>target_value = final_text v ks,
                         currentTarget_value = final_text v ks\<rparr>)])
            else [])"
    using xs by (simp add: calls_since_def pf diverged_def cong: option.case_cong)
  with hon show ?thesis
    unfolding r by blast
qed

theorem C2_witness:
  "wf_state (mount ex_props_default) \<and> mounted (mount ex_props_default) \<and>
   ''a'' \<noteq> internalValue (mount ex_props_default) \<and>
   quiet_burst ''a'' (cur_props (mount ex_props_default))
     [(100, Keystroke ''ab''), (100, SetProps (ex_props_default\<lparr>p_onChange := Some 8\<rparr>))] \<and>
   honoured (p_debounceMs (ex_props_default\<lparr>p_onChange := Some 8\<rparr>)) 3000 \<and>
   map observed
     (calls (run (Keystroke ''a'' #
                  burst [(100, Keystroke ''ab''),
                         (100, SetProps (ex_props_default\<lparr>p_onChange := Some 8\<rparr>))] @
                  [Elapse 3000])
              (mount ex_props_default))) =
     [(3200, 8, \<lparr>target_value = ''ab'', currentTarget_value = ''ab''\<rparr>)]"
  using C2_burst_commits_once [of "mount ex_props_default" "''a''"
      "[(100, Keystroke ''ab''), (100, SetProps (ex_props_default\<lparr>p_onChange := Some 8\<rparr>))]"
      3000 3000]
    wf_mount [of ex_props_default]
  by (simp add: mount_eq calls_since_def ex_props_default_def or_empty_def honoured_def
      del: burst.simps step.simps)

end
